theory Spec2Isabelle
  imports Complex_Main "HOL-Library.Sublist" "HOL-Library.Multiset"
begin

section \<open>sync\_wimi: a shallow embedding of the synchronisation script\<close>

text \<open>
  The script reads a list of files from a Wimi drive (the source) and brings a Dify
  knowledge base (the sink) in line with it. The embedding follows
  \<^verbatim>\<open>src/sync_wimi.py\<close> function by function. Python exceptions are values of the
  type \<open>error\<close>; every call of the two REST clients and every \<^verbatim>\<open>print\<close> is an
  event appended to a trace, so that what the script did can be read off afterwards.
\<close>

subsection \<open>Exceptions\<close>

datatype error =
    IndexError
  | KeyError
  | ValueError
  | UnboundLocalError
  | JSONDecodeError
  | TypeError
  | DownloadFailed nat

subsection \<open>Strings: \<^verbatim>\<open>str.split\<close> and \<^verbatim>\<open>str.join\<close>\<close>

text \<open>
  \<^verbatim>\<open>s.split(c)\<close> for a one-character separator: the pieces between the occurrences
  of \<open>c\<close>, empty pieces kept, never the empty list.
\<close>

fun py_split :: "char \<Rightarrow> string \<Rightarrow> string list" where
  "py_split c [] = [[]]"
| "py_split c (x # xs) =
     (if x = c then [] # py_split c xs
      else (case py_split c xs of
              w # ws \<Rightarrow> (x # w) # ws
            | [] \<Rightarrow> [[x]]))"

fun py_join :: "string \<Rightarrow> string list \<Rightarrow> string" where
  "py_join sep [] = []"
| "py_join sep [w] = w"
| "py_join sep (w # v # ws) = w @ sep @ py_join sep (v # ws)"

subsection \<open>\<^verbatim>\<open>remove_multiple_extensions\<close>\<close>

text \<open>
  \<^verbatim>\<open>
  def remove_multiple_extensions(filename):
      parts = filename.split('.')
      if len(parts) > 2:
          while parts[-1] == parts[-2]:
              parts = parts[:-1]
          return '.'.join(parts)
      return filename
  \<close>
  The loop reads \<^verbatim>\<open>parts[-1]\<close> and \<^verbatim>\<open>parts[-2]\<close>; on a list shorter than two
  elements the read raises IndexError, which nothing catches.
\<close>

function trailing_loop :: "string list \<Rightarrow> error + string list" where
  "trailing_loop parts =
     (if length parts < 2 then Inl IndexError
      else if parts ! (length parts - 1) = parts ! (length parts - 2)
           then trailing_loop (take (length parts - 1) parts)
           else Inr parts)"
  by pat_completeness auto
termination
  by (relation "measure length") auto

definition remove_multiple_extensions :: "string \<Rightarrow> error + string" where
  "remove_multiple_extensions filename =
     (let parts = py_split (CHR ''.'') filename in
      if length parts > 2 then
        (case trailing_loop parts of
           Inl e \<Rightarrow> Inl e
         | Inr ps \<Rightarrow> Inr (py_join ''.'' ps))
      else Inr filename)"

subsection \<open>\<^verbatim>\<open>os.path.splitext\<close>\<close>

text \<open>
  The standard library's \<^verbatim>\<open>posixpath.splitext\<close>: the extension starts at the last
  dot of the last path component, provided a character other than a dot stands before
  it in that component; it keeps its leading dot. \<^verbatim>\<open>str.rfind\<close> answers \<open>-1\<close> when
  the character does not occur.
\<close>

definition py_rfind :: "char \<Rightarrow> string \<Rightarrow> int" where
  "py_rfind c s =
     (case filter (\<lambda>i. s ! i = c) (rev [0..<length s]) of
        [] \<Rightarrow> - 1
      | i # _ \<Rightarrow> int i)"

definition splitext :: "string \<Rightarrow> string \<times> string" where
  "splitext p =
     (let sepIndex = py_rfind (CHR ''/'') p;
          dotIndex = py_rfind (CHR ''.'') p
      in if dotIndex > sepIndex \<and>
            list_ex (\<lambda>i. p ! i \<noteq> CHR ''.'') [nat (sepIndex + 1)..<nat dotIndex]
         then (take (nat dotIndex) p, drop (nat dotIndex) p)
         else (p, []))"

subsection \<open>Constants\<close>

definition SUPPORTED_EXTENSIONS_DIFY :: "string list" where
  "SUPPORTED_EXTENSIONS_DIFY =
     [''.txt'', ''.md'', ''.md'', ''.pdf'', ''.html'', ''.htm'', ''.xlsx'', ''.xls'', ''.csv'']"

definition SUPPORTED_EXTENSIONS_UNSTRUCTURED :: "string list" where
  "SUPPORTED_EXTENSIONS_UNSTRUCTURED =
     [''.csv'', ''.eml'', ''.msg'', ''.epub'', ''.xlsx'', ''.xls'', ''.html'', ''.htm'',
      ''.md'', ''.markdown'', ''.pdf'', ''.txt'', ''.pptx'', ''.docx'', ''.xml'']"

subsection \<open>Documents, events and the two remote services\<close>

text \<open>
  \<^verbatim>\<open>class Document\<close>: the field \<^verbatim>\<open>id\<close> is \<open>ident\<close> here. A timestamp is a Python
  float that is only ever compared, so it is the real number the float denotes.
\<close>

record Document =
  name :: string
  ident :: string
  date :: real
  mime_type :: "string option"
  workspace_id :: "int option"

type_synonym content = string
type_synonym reply = string

text \<open>What the script prints, one constructor for each \<^verbatim>\<open>print\<close> of the source.\<close>

datatype message =
    Existing_documents
  | Doc_line Document
  | Processing_file string string
  | Updated_document string
  | No_need_to_update string
  | Unsupported_file_type string
  | Error_uploading string
  | Trying_again
  | Success
  | Uploaded_new_document string
  | Rep_line reply
  | Deleted_no_longer_in_drive string
  | Deleted_successfully string
  | Failed_to_delete string nat
  | KeyError_with string
  | Response_json
  | Deleting_and_performing_again
  | Downloading string
  | Workspace_line "int option"
  | Not_supported_file string

text \<open>
  A request sent to the source (\<open>Download\<close>) or to the sink (\<open>Upload\<close> is
  \<^verbatim>\<open>create_by_file\<close>, \<open>Update\<close> is \<^verbatim>\<open>update_by_file\<close>, \<open>Delete\<close>), or a
  printed line. An \<open>Upload\<close> or \<open>Update\<close> carries the name and the bytes of the
  file part as they go over the wire.
\<close>

datatype event =
    Download "int option" string
  | Upload string content
  | Update string string content
  | Delete string
  | Print message

text \<open>
  What \<^verbatim>\<open>response.json()['document']\<close> makes of the sink's reply to an upload or an
  update: the entry, KeyError when the reply is a JSON object without it, TypeError when
  the reply is JSON but no object, JSONDecodeError when it is not JSON.
\<close>

datatype sink_reply =
    With_document reply
  | Without_document
  | Not_an_object
  | Not_JSON

text \<open>
  The two services answer as they please: each answer is a function of the requests made
  so far and of the request itself. A download answers a status code and a body, a
  delete answers a status code. A failure of the transport itself, after the retries of
  the HTTP session, is not part of the model.
\<close>

record env =
  download_resp :: "event list \<Rightarrow> int option \<Rightarrow> string \<Rightarrow> nat \<times> content"
  upload_resp :: "event list \<Rightarrow> string \<Rightarrow> content \<Rightarrow> sink_reply"
  update_resp :: "event list \<Rightarrow> string \<Rightarrow> string \<Rightarrow> content \<Rightarrow> sink_reply"
  delete_resp :: "event list \<Rightarrow> string \<Rightarrow> nat"

text \<open>
  The state of a run: the trace; the \<^verbatim>\<open>io.BytesIO\<close> objects made so far, each
  given by the bytes not yet read from it and named by its position in the list; and
  the two local variables of \<^verbatim>\<open>synchronize_with_dify\<close> that are read on some paths
  before the current iteration has assigned them (\<open>None\<close> is an unbound variable).
  \<^verbatim>\<open>content_stream\<close> holds the name of a stream, so the caller and the client
  methods it hands the stream to share one object.
\<close>

record state =
  trace :: "event list"
  streams :: "content list"
  content_stream :: "nat option"
  rep :: "reply option"

definition emit :: "event \<Rightarrow> state \<Rightarrow> state" where
  "emit e s = s\<lparr>trace := trace s @ [e]\<rparr>"

text \<open>
  \<^verbatim>\<open>io.BytesIO(b)\<close> makes a new stream. Sending a stream as the file part of a
  request reads it to its end (\<^verbatim>\<open>requests\<close> calls \<^verbatim>\<open>read()\<close> on it): the bytes
  sent are the unread ones, and none are left after. Every name the script passes comes
  from \<open>BytesIO\<close>; a number that names no stream reads as empty.
\<close>

definition BytesIO :: "content \<Rightarrow> state \<Rightarrow> nat \<times> state" where
  "BytesIO b s = (length (streams s), s\<lparr>streams := streams s @ [b]\<rparr>)"

definition read_stream :: "nat \<Rightarrow> state \<Rightarrow> content \<times> state" where
  "read_stream a s =
     (if a < length (streams s) then (streams s ! a, s\<lparr>streams := (streams s)[a := []]\<rparr>)
      else ([], s))"

subsection \<open>\<^verbatim>\<open>DifyKnowledgeClient\<close>\<close>

definition delete_document :: "env \<Rightarrow> string \<Rightarrow> state \<Rightarrow> state" where
  "delete_document env document_id s =
     (let status_code = delete_resp env (trace s) document_id;
          s1 = emit (Delete document_id) s
      in if status_code = 200 then emit (Print (Deleted_successfully document_id)) s1
         else emit (Print (Failed_to_delete document_id status_code)) s1)"

text \<open>
  \<^verbatim>\<open>upload_document\<close>: \<open>document_content\<close> is the name of a stream. Only KeyError
  is caught, printed and raised again.
\<close>

definition upload_document ::
  "env \<Rightarrow> string \<Rightarrow> nat \<Rightarrow> state \<Rightarrow> (error + reply) \<times> state" where
  "upload_document env document_name document_content s =
     (let sent = fst (read_stream document_content s);
          s0 = snd (read_stream document_content s);
          response = upload_resp env (trace s0) document_name sent;
          s1 = emit (Upload document_name sent) s0
      in case response of
           With_document r \<Rightarrow> (Inr r, s1)
         | Without_document \<Rightarrow>
             (Inl KeyError, emit (Print Response_json) (emit (Print (KeyError_with document_name)) s1))
         | Not_an_object \<Rightarrow> (Inl TypeError, s1)
         | Not_JSON \<Rightarrow> (Inl JSONDecodeError, s1))"

text \<open>
  \<^verbatim>\<open>update_document\<close> returns the \<^verbatim>\<open>document\<close> entry; on KeyError it deletes the
  document, calls \<^verbatim>\<open>upload_document\<close> with the same name and the same stream, and
  falls off the end of the handler (Python's \<^verbatim>\<open>None\<close>). An exception of that upload
  is not caught, nor is any other exception than KeyError.
\<close>

definition update_document ::
  "env \<Rightarrow> string \<Rightarrow> string \<Rightarrow> nat \<Rightarrow> state \<Rightarrow> (error + reply option) \<times> state" where
  "update_document env document_name document_id document_content s =
     (let sent = fst (read_stream document_content s);
          s0 = snd (read_stream document_content s);
          response = update_resp env (trace s0) document_name document_id sent;
          s1 = emit (Update document_name document_id sent) s0
      in case response of
           With_document r \<Rightarrow> (Inr (Some r), s1)
         | Without_document \<Rightarrow>
             (let s2 = emit (Print Deleting_and_performing_again) s1;
                  s3 = delete_document env document_id s2
              in case upload_document env document_name document_content s3 of
                   (Inl e, s4) \<Rightarrow> (Inl e, s4)
                 | (Inr r, s4) \<Rightarrow> (Inr None, s4))
         | Not_an_object \<Rightarrow> (Inl TypeError, s1)
         | Not_JSON \<Rightarrow> (Inl JSONDecodeError, s1))"

subsection \<open>\<^verbatim>\<open>WimiFileSource\<close>\<close>

definition download_file :: "env \<Rightarrow> Document \<Rightarrow> state \<Rightarrow> (error + content) \<times> state" where
  "download_file env document s =
     (let s1 = emit (Print (Downloading (name document))) s;
          s2 = emit (Print (Workspace_line (workspace_id document))) s1;
          response = download_resp env (trace s2) (workspace_id document) (ident document);
          s3 = emit (Download (workspace_id document) (ident document)) s2
      in if fst response = 200 then (Inr (snd response), s3)
         else (Inl (DownloadFailed (fst response)), s3))"

text \<open>
  \<^verbatim>\<open>self.extensions\<close> is fixed when the source object is built, from the environment
  variable \<^verbatim>\<open>UNSTRUCTURED\<close> (unset or empty selects the sink's own list).
\<close>

definition WimiFileSource_extensions :: "string option \<Rightarrow> string list" where
  "WimiFileSource_extensions unstructured =
     (case unstructured of
        None \<Rightarrow> SUPPORTED_EXTENSIONS_DIFY
      | Some v \<Rightarrow> if v = [] then SUPPORTED_EXTENSIONS_DIFY else SUPPORTED_EXTENSIONS_UNSTRUCTURED)"

text \<open>
  One element of the \<^verbatim>\<open>files\<close> array of a folder listing, with the four keys
  \<^verbatim>\<open>list_files\<close> reads. \<^verbatim>\<open>convert_to_timestamp\<close> rests on \<^verbatim>\<open>strptime\<close> and on the
  local time zone; it is a parameter \<open>ts\<close> of the listing, answering ValueError or
  a time.
\<close>

record entry =
  entry_name :: string
  extension :: string
  file_id :: string
  entry_date :: string

fun list_files_loop ::
  "(string \<Rightarrow> error + real) \<Rightarrow> string list \<Rightarrow> int \<Rightarrow> entry list \<Rightarrow> Document list \<Rightarrow>
   event list \<Rightarrow> (error + Document list) \<times> event list" where
  "list_files_loop ts extensions project_id [] files tr = (Inr files, tr)"
| "list_files_loop ts extensions project_id (d # ds) files tr =
     (if ''.'' @ extension d \<in> set extensions then
        (case remove_multiple_extensions (entry_name d) of
           Inl e \<Rightarrow> (Inl e, tr)
         | Inr n \<Rightarrow>
             (case ts (entry_date d) of
                Inl e \<Rightarrow> (Inl e, tr)
              | Inr t \<Rightarrow>
                  list_files_loop ts extensions project_id ds
                    (files @ [\<lparr>name = n, ident = file_id d, date = t, mime_type = None,
                               workspace_id = Some project_id\<rparr>]) tr))
      else list_files_loop ts extensions project_id ds files
             (tr @ [Print (Not_supported_file (entry_name d))]))"

definition list_files ::
  "(string \<Rightarrow> error + real) \<Rightarrow> string list \<Rightarrow> int \<Rightarrow> entry list \<Rightarrow> event list \<Rightarrow>
   (error + Document list) \<times> event list" where
  "list_files ts extensions project_id files_dicts tr =
     list_files_loop ts extensions project_id files_dicts [] tr"

subsection \<open>\<^verbatim>\<open>max\<close> and \<^verbatim>\<open>sorted\<close> with a key\<close>

text \<open>
  \<^verbatim>\<open>max(xs, key=f)\<close> walks the list and replaces its candidate only by an element
  with a strictly greater key, so among equals the first one wins; on the empty list it
  raises ValueError. \<^verbatim>\<open>sorted(xs, key=f, reverse=True)\<close> is stable: it reverses, sorts
  upwards and reverses again.
\<close>

definition py_max_key :: "('a \<Rightarrow> 'k::linorder) \<Rightarrow> 'a list \<Rightarrow> error + 'a" where
  "py_max_key f xs =
     (case xs of
        [] \<Rightarrow> Inl ValueError
      | x # r \<Rightarrow> Inr (foldl (\<lambda>m y. if f m < f y then y else m) x r))"

definition py_sorted_reverse :: "('a \<Rightarrow> 'k::linorder) \<Rightarrow> 'a list \<Rightarrow> 'a list" where
  "py_sorted_reverse f xs = rev (sort_key f (rev xs))"

subsection \<open>\<^verbatim>\<open>synchronize_with_dify\<close>\<close>

text \<open>
  The branch of the first loop for a file whose name the sink already has
  (lines 435 to 451). \<open>E\<close> is \<^verbatim>\<open>existing_documents\<close>, in the order in which the
  set is iterated.
\<close>

definition update_branch ::
  "env \<Rightarrow> Document list \<Rightarrow> bool \<Rightarrow> bool \<Rightarrow> Document \<Rightarrow> state \<Rightarrow> (error + unit) \<times> state" where
  "update_branch env E remove_duplicates verbose file s =
     (let document_name = name file;
          document_with_name = filter (\<lambda>d. name d = document_name) E
      in case py_max_key date document_with_name of
           Inl e \<Rightarrow> (Inl e, s)
         | Inr existing_document \<Rightarrow>
             (let s1 = (if remove_duplicates \<and> length document_with_name > 1
                        then fold (\<lambda>doc. delete_document env (ident doc))
                               (drop 1 (py_sorted_reverse date document_with_name)) s
                        else s)
              in if date existing_document \<le> date file then
                   (let extension = ''.'' @ snd (splitext (name file)) in
                    case (if extension \<in> set SUPPORTED_EXTENSIONS_UNSTRUCTURED then
                            (case download_file env file s1 of
                               (Inl e, s2) \<Rightarrow> (Inl e, s2)
                             | (Inr c, s2) \<Rightarrow>
                                 (case update_document env document_name (ident existing_document)
                                         (fst (BytesIO c s2))
                                         ((snd (BytesIO c s2))\<lparr>content_stream := Some (fst (BytesIO c s2))\<rparr>) of
                                    (Inl e, s3) \<Rightarrow> (Inl e, s3)
                                  | (Inr r, s3) \<Rightarrow> (Inr (), s3)))
                          else (Inr (), s1)) of
                      (Inl e, s4) \<Rightarrow> (Inl e, s4)
                    | (Inr u, s4) \<Rightarrow> (Inr (), emit (Print (Updated_document document_name)) s4))
                 else (Inr (), if verbose then emit (Print (No_need_to_update document_name)) s1
                               else s1)))"

text \<open>
  The branch for a file whose name the sink does not have (lines 454 to 471): the body
  of the \<^verbatim>\<open>try\<close>, the handler of \<^verbatim>\<open>except Exception\<close>, and the two prints after
  them. The handler reads \<^verbatim>\<open>content_stream\<close>, and the last print reads \<^verbatim>\<open>rep\<close>,
  whatever the current iteration has done to them; the stream the handler passes on is
  the object the variable holds, read or not.
\<close>

definition try_block ::
  "env \<Rightarrow> bool \<Rightarrow> Document \<Rightarrow> state \<Rightarrow> (error + unit) \<times> state" where
  "try_block env verbose file s =
     (case download_file env file s of
        (Inl e, s1) \<Rightarrow> (Inl e, s1)
      | (Inr c, s1) \<Rightarrow>
          (let a = fst (BytesIO c s1);
               s2 = (snd (BytesIO c s1))\<lparr>content_stream := Some a\<rparr>;
               extension = snd (splitext (name file))
           in if extension \<in> set SUPPORTED_EXTENSIONS_UNSTRUCTURED then
                (case upload_document env (name file) a s2 of
                   (Inl e, s3) \<Rightarrow> (Inl e, s3)
                 | (Inr r, s3) \<Rightarrow> (Inr (), s3\<lparr>rep := Some r\<rparr>))
              else (Inr (), if verbose then emit (Print (Unsupported_file_type extension)) s2
                            else s2)))"

definition except_handler :: "env \<Rightarrow> Document \<Rightarrow> state \<Rightarrow> (error + unit) \<times> state" where
  "except_handler env file s =
     (let s1 = emit (Print (Error_uploading (name file))) s;
          s2 = emit (Print Trying_again) s1
      in case content_stream s2 of
           None \<Rightarrow> (Inl UnboundLocalError, s2)
         | Some a \<Rightarrow>
             (case upload_document env (name file) a s2 of
                (Inl e, s3) \<Rightarrow> (Inl e, s3)
              | (Inr r, s3) \<Rightarrow> (Inr (), emit (Print Success) (s3\<lparr>rep := Some r\<rparr>))))"

definition create_branch ::
  "env \<Rightarrow> bool \<Rightarrow> Document \<Rightarrow> state \<Rightarrow> (error + unit) \<times> state" where
  "create_branch env verbose file s =
     (case (case try_block env verbose file s of
              (Inl e, s1) \<Rightarrow> except_handler env file s1
            | (Inr u, s1) \<Rightarrow> (Inr u, s1)) of
        (Inl e, s2) \<Rightarrow> (Inl e, s2)
      | (Inr u, s2) \<Rightarrow>
          if verbose then
            (let s3 = emit (Print (Uploaded_new_document (name file))) s2
             in case rep s3 of
                  None \<Rightarrow> (Inl UnboundLocalError, s3)
                | Some r \<Rightarrow> (Inr (), emit (Print (Rep_line r)) s3))
          else (Inr (), s2))"

definition process_file ::
  "env \<Rightarrow> Document list \<Rightarrow> bool \<Rightarrow> bool \<Rightarrow> Document \<Rightarrow> state \<Rightarrow> (error + unit) \<times> state" where
  "process_file env E remove_duplicates verbose file s =
     (let s0 = (if verbose then emit (Print (Processing_file (name file) (ident file))) s else s)
      in if name file \<in> set (map name E)
         then update_branch env E remove_duplicates verbose file s0
         else create_branch env verbose file s0)"

fun sync_loop ::
  "env \<Rightarrow> Document list \<Rightarrow> bool \<Rightarrow> bool \<Rightarrow> Document list \<Rightarrow> state \<Rightarrow> (error + unit) \<times> state" where
  "sync_loop env E remove_duplicates verbose [] s = (Inr (), s)"
| "sync_loop env E remove_duplicates verbose (file # files) s =
     (case process_file env E remove_duplicates verbose file s of
        (Inl e, s1) \<Rightarrow> (Inl e, s1)
      | (Inr u, s1) \<Rightarrow> sync_loop env E remove_duplicates verbose files s1)"

text \<open>The second loop (lines 473 to 477).\<close>

definition orphan_step :: "env \<Rightarrow> Document list \<Rightarrow> bool \<Rightarrow> Document \<Rightarrow> state \<Rightarrow> state" where
  "orphan_step env all_documents verbose doc s =
     (if name doc \<notin> set (map name all_documents) then
        (let s1 = delete_document env (ident doc) s
         in if verbose then emit (Print (Deleted_no_longer_in_drive (name doc))) s1 else s1)
      else s)"

definition orphan_pass :: "env \<Rightarrow> Document list \<Rightarrow> Document list \<Rightarrow> bool \<Rightarrow> state \<Rightarrow> state" where
  "orphan_pass env all_documents E verbose s = fold (orphan_step env all_documents verbose) E s"

text \<open>
  The whole function, started after the requests \<open>h\<close> already made; \<open>E\<close> is what
  \<^verbatim>\<open>get_existing_documents\<close> returned. The local variables start unbound and no
  stream has been made. An
  exception of the first loop ends the run: the second loop is not reached.
\<close>

definition print_existing :: "Document list \<Rightarrow> state \<Rightarrow> state" where
  "print_existing E s = fold (\<lambda>doc. emit (Print (Doc_line doc))) E (emit (Print Existing_documents) s)"

definition synchronize_with_dify ::
  "env \<Rightarrow> Document list \<Rightarrow> Document list \<Rightarrow> bool \<Rightarrow> bool \<Rightarrow> event list \<Rightarrow> (error + unit) \<times> state" where
  "synchronize_with_dify env all_documents E remove_duplicates verbose h =
     (let s = \<lparr>trace = h, streams = [], content_stream = None, rep = None\<rparr>;
          s0 = (if verbose then print_existing E s else s)
      in case sync_loop env E remove_duplicates verbose all_documents s0 of
           (Inl e, s1) \<Rightarrow> (Inl e, s1)
         | (Inr u, s1) \<Rightarrow> (Inr (), orphan_pass env all_documents E verbose s1))"

subsection \<open>Reading a trace\<close>

text \<open>The requests of each kind that a trace holds, in order.\<close>

fun uploads :: "event list \<Rightarrow> (string \<times> content) list" where
  "uploads [] = []"
| "uploads (Upload n c # tr) = (n, c) # uploads tr"
| "uploads (e # tr) = uploads tr"

fun updates :: "event list \<Rightarrow> (string \<times> string \<times> content) list" where
  "updates [] = []"
| "updates (Update n i c # tr) = (n, i, c) # updates tr"
| "updates (e # tr) = updates tr"

fun deletes :: "event list \<Rightarrow> string list" where
  "deletes [] = []"
| "deletes (Delete i # tr) = i # deletes tr"
| "deletes (e # tr) = deletes tr"

fun downloads :: "event list \<Rightarrow> (int option \<times> string) list" where
  "downloads [] = []"
| "downloads (Download w i # tr) = (w, i) # downloads tr"
| "downloads (e # tr) = downloads tr"

fun prints :: "event list \<Rightarrow> message list" where
  "prints [] = []"
| "prints (Print m # tr) = m # prints tr"
| "prints (e # tr) = prints tr"

subsection \<open>Helpers for stating the results\<close>

text \<open>
  The ids that one iteration of the first loop hands to \<^verbatim>\<open>delete_document\<close>: the
  slice \<^verbatim>\<open>sorted(...)[1:]\<close> of line 439 when line 438 lets it run, nothing
  otherwise.
\<close>

definition duplicate_ids :: "Document list \<Rightarrow> bool \<Rightarrow> Document \<Rightarrow> string list" where
  "duplicate_ids E remove_duplicates file =
     (if name file \<in> set (map name E) \<and> remove_duplicates \<and>
         1 < length (filter (\<lambda>d. name d = name file) E)
      then map ident (drop 1 (py_sorted_reverse date (filter (\<lambda>d. name d = name file) E)))
      else [])"

text \<open>
  \<^verbatim>\<open>Document(name, id, date)\<close> with the two defaulted arguments, and services whose
  answers do not depend on the request, for the examples.
\<close>

definition new_Document :: "string \<Rightarrow> string \<Rightarrow> real \<Rightarrow> Document" where
  "new_Document n i t = \<lparr>name = n, ident = i, date = t, mime_type = None, workspace_id = None\<rparr>"

definition fixed_env :: "nat \<Rightarrow> content \<Rightarrow> sink_reply \<Rightarrow> sink_reply \<Rightarrow> nat \<Rightarrow> env" where
  "fixed_env status body created updated deleted =
     \<lparr>download_resp = (\<lambda>h w i. (status, body)),
      upload_resp = (\<lambda>h n c. created),
      update_resp = (\<lambda>h n i c. updated),
      delete_resp = (\<lambda>h i. deleted)\<rparr>"

text \<open>The inputs of two examples.\<close>

definition three_x :: "Document list" where
  "three_x = [new_Document ''x'' ''s1'' 10, new_Document ''x'' ''s2'' 20, new_Document ''x'' ''s3'' 15]"

definition example_listing :: "entry list" where
  "example_listing =
     [\<lparr>entry_name = ''a.pdf'', extension = ''pdf'', file_id = ''1'', entry_date = ''2024''\<rparr>,
      \<lparr>entry_name = ''b.PDF'', extension = ''PDF'', file_id = ''2'', entry_date = ''2024''\<rparr>,
      \<lparr>entry_name = ''c.exe'', extension = ''exe'', file_id = ''3'', entry_date = ''2024''\<rparr>]"


section \<open>Properties\<close>

subsection \<open>Splitting and joining\<close>

declare trailing_loop.simps [simp del]

lemma py_split_ne: "py_split c s \<noteq> []"
  by (induction s) (auto split: list.splits)

lemma py_split_no_sep: "c \<notin> set w \<Longrightarrow> py_split c w = [w]"
  by (induction w) auto

lemma py_split_append_sep:
  "c \<notin> set w \<Longrightarrow> py_split c (w @ c # r) = w # py_split c r"
  by (induction w) auto

lemma py_split_join:
  "ws \<noteq> [] \<Longrightarrow> \<forall>w\<in>set ws. c \<notin> set w \<Longrightarrow> py_split c (py_join [c] ws) = ws"
  by (induction "[c]" ws rule: py_join.induct) (auto simp: py_split_no_sep py_split_append_sep)

lemma py_join_split: "py_join [c] (py_split c s) = s"
proof (induction s)
  case Nil
  show ?case by simp
next
  case (Cons x s)
  obtain w ws where sp: "py_split c s = w # ws"
    using py_split_ne [of c s] by (cases "py_split c s") auto
  show ?case
    using Cons sp by (cases ws) auto
qed

lemma replicate_snoc2: "replicate n x @ [x, x] = replicate (Suc (Suc n)) x"
  by (induction n) auto

lemma trailing_loop_snoc2:
  "trailing_loop (ps @ [a, b]) = (if b = a then trailing_loop (ps @ [a]) else Inr (ps @ [a, b]))"
  by (subst trailing_loop.simps) (simp add: nth_append)

lemma trailing_loop_short: "length parts < 2 \<Longrightarrow> trailing_loop parts = Inl IndexError"
  by (subst trailing_loop.simps) simp

lemma trailing_loop_replicate: "trailing_loop (replicate (Suc n) x) = Inl IndexError"
proof (induction n)
  case 0
  show ?case by (simp add: trailing_loop_short)
next
  case (Suc n)
  have "replicate (Suc (Suc n)) x = replicate n x @ [x, x]"
    by (simp only: replicate_snoc2)
  moreover have "replicate n x @ [x] = replicate (Suc n) x"
    by (simp add: replicate_append_same)
  ultimately show ?case
    using Suc by (simp only: trailing_loop_snoc2 simp_thms if_True)
qed

lemma two_last:
  assumes "\<not> length xs < 2"
  shows "\<exists>qs a b. xs = qs @ [a, b]"
proof (cases xs rule: rev_cases)
  case Nil
  with assms show ?thesis by simp
next
  case (snoc ys b)
  with assms show ?thesis
    by (cases ys rule: rev_cases) auto
qed

lemma trailing_loop_run:
  "ps \<noteq> [] \<Longrightarrow> last ps \<noteq> x \<Longrightarrow> trailing_loop (ps @ replicate (Suc n) x) = Inr (ps @ [x])"
proof (induction n)
  case 0
  from 0(1) obtain qs a where ps: "ps = qs @ [a]"
    by (cases ps rule: rev_cases) auto
  with 0(2) have "a \<noteq> x" by simp
  then show ?case
    using ps by (simp add: trailing_loop_snoc2)
next
  case (Suc n)
  have "ps @ replicate (Suc (Suc n)) x = (ps @ replicate n x) @ [x, x]"
    by (simp only: append_assoc replicate_snoc2)
  moreover have "(ps @ replicate n x) @ [x] = ps @ replicate (Suc n) x"
    by (simp add: replicate_append_same)
  ultimately show ?case
    using Suc.IH [OF Suc.prems] by (simp only: trailing_loop_snoc2 simp_thms if_True)
qed

lemma trailing_loop_Inr:
  "trailing_loop parts = Inr r \<Longrightarrow>
     \<exists>ps x n. parts = ps @ replicate (Suc n) x \<and> ps \<noteq> [] \<and> last ps \<noteq> x \<and> r = ps @ [x]"
proof (induction parts rule: trailing_loop.induct)
  case (1 parts)
  show ?case
  proof (cases "length parts < 2")
    case True
    with "1.prems" show ?thesis by (simp add: trailing_loop_short)
  next
    case False
    then obtain qs a b where parts: "parts = qs @ [a, b]"
      using two_last by blast
    show ?thesis
    proof (cases "b = a")
      case False
      with "1.prems" parts have "r = (qs @ [a]) @ [b]"
        by (simp add: trailing_loop_snoc2)
      moreover have "parts = (qs @ [a]) @ replicate (Suc 0) b"
        using parts by simp
      ultimately show ?thesis
        using False by (intro exI [of _ "qs @ [a]"] exI [of _ b] exI [of _ 0]) simp
    next
      case True
      have tk: "take (length parts - 1) parts = qs @ [a]"
        using parts by simp
      have eq: "parts ! (length parts - 1) = parts ! (length parts - 2)"
        using parts True by (simp add: nth_append)
      have "trailing_loop (qs @ [a]) = Inr r"
        using "1.prems" parts True by (simp add: trailing_loop_snoc2)
      with "1.IH" [OF \<open>\<not> length parts < 2\<close> eq] tk
      obtain ps x n where h: "qs @ [a] = ps @ replicate (Suc n) x" "ps \<noteq> []" "last ps \<noteq> x" "r = ps @ [x]"
        by auto
      have "last (qs @ [a]) = last (ps @ replicate (Suc n) x)"
        using h(1) by simp
      then have "a = x" by simp
      have "parts = (qs @ [a]) @ [x]"
        using parts True \<open>a = x\<close> by simp
      also have "\<dots> = ps @ (replicate (Suc n) x @ [x])"
        using h(1) by simp
      also have "replicate (Suc n) x @ [x] = replicate (Suc (Suc n)) x"
        by (simp add: replicate_append_same)
      finally have "parts = ps @ replicate (Suc (Suc n)) x" .
      with h show ?thesis by blast
    qed
  qed
qed

lemma trailing_loop_prefix: "trailing_loop parts = Inr r \<Longrightarrow> prefix r parts \<and> r \<noteq> []"
proof -
  assume "trailing_loop parts = Inr r"
  then obtain ps x n where h: "parts = ps @ replicate (Suc n) x" "r = ps @ [x]"
    using trailing_loop_Inr by blast
  have "parts = r @ replicate n x"
    using h by simp
  then show ?thesis
    using h(2) by (simp add: prefix_def)
qed

lemma py_join_prefix: "prefix r parts \<Longrightarrow> r \<noteq> [] \<Longrightarrow> prefix (py_join sep r) (py_join sep parts)"
proof (induction sep r arbitrary: parts rule: py_join.induct)
  case (1 sep)
  then show ?case by simp
next
  case (2 sep w)
  then obtain ps where "parts = w # ps" by (auto simp: prefix_def)
  then show ?case by (cases ps) auto
next
  case (3 sep w v ws)
  then obtain ps where ps: "parts = w # v # ps" "prefix (v # ws) (v # ps)"
    by (auto simp: prefix_def)
  with 3 show ?case by auto
qed

subsection \<open>The extension of a name\<close>

lemma py_rfind_hit:
  assumes "0 \<le> py_rfind c s"
  shows "nat (py_rfind c s) < length s \<and> s ! nat (py_rfind c s) = c"
proof (cases "filter (\<lambda>i. s ! i = c) (rev [0..<length s])")
  case Nil
  with assms show ?thesis by (simp add: py_rfind_def)
next
  case (Cons i r)
  then have "i \<in> set (filter (\<lambda>i. s ! i = c) (rev [0..<length s]))" by simp
  then have "i < length s \<and> s ! i = c" by simp
  moreover have "py_rfind c s = int i" using Cons by (simp add: py_rfind_def)
  ultimately show ?thesis by simp
qed

lemma py_rfind_lower: "- 1 \<le> py_rfind c s"
  by (simp add: py_rfind_def split: list.splits)

lemma splitext_ext: "snd (splitext p) = [] \<or> (\<exists>r. snd (splitext p) = CHR ''.'' # r)"
proof (cases "py_rfind (CHR ''/'') p < py_rfind (CHR ''.'') p")
  case False
  then show ?thesis by (simp add: splitext_def Let_def)
next
  case True
  with py_rfind_lower [of "CHR ''/''" p] have "0 \<le> py_rfind (CHR ''.'') p" by linarith
  from py_rfind_hit [OF this]
  have "drop (nat (py_rfind (CHR ''.'') p)) p = CHR ''.'' # drop (Suc (nat (py_rfind (CHR ''.'') p))) p"
    by (metis Cons_nth_drop_Suc)
  then show ?thesis by (simp add: splitext_def Let_def)
qed

lemma dotted_extension_unsupported:
  "''.'' @ snd (splitext p) \<notin> set SUPPORTED_EXTENSIONS_UNSTRUCTURED"
  using splitext_ext [of p] by (auto simp: SUPPORTED_EXTENSIONS_UNSTRUCTURED_def)

subsection \<open>What each operation adds to the trace\<close>

lemma uploads_append [simp]: "uploads (a @ b) = uploads a @ uploads b"
  by (induction a rule: uploads.induct) auto

lemma updates_append [simp]: "updates (a @ b) = updates a @ updates b"
  by (induction a rule: updates.induct) auto

lemma deletes_append [simp]: "deletes (a @ b) = deletes a @ deletes b"
  by (induction a rule: deletes.induct) auto

lemma downloads_append [simp]: "downloads (a @ b) = downloads a @ downloads b"
  by (induction a rule: downloads.induct) auto

lemma prints_append [simp]: "prints (a @ b) = prints a @ prints b"
  by (induction a rule: prints.induct) auto

lemma emit_simps [simp]:
  "trace (emit e s) = trace s @ [e]"
  "streams (emit e s) = streams s"
  "content_stream (emit e s) = content_stream s"
  "rep (emit e s) = rep s"
  by (simp_all add: emit_def)

lemma BytesIO_simps [simp]:
  "fst (BytesIO b s) = length (streams s)"
  "trace (snd (BytesIO b s)) = trace s"
  "streams (snd (BytesIO b s)) = streams s @ [b]"
  "content_stream (snd (BytesIO b s)) = content_stream s"
  "rep (snd (BytesIO b s)) = rep s"
  by (simp_all add: BytesIO_def)

lemma read_stream_simps [simp]:
  "trace (snd (read_stream a s)) = trace s"
  "content_stream (snd (read_stream a s)) = content_stream s"
  "rep (snd (read_stream a s)) = rep s"
  by (simp_all add: read_stream_def)

lemma read_stream_fresh [simp]:
  "fst (read_stream (length (streams s)) (s\<lparr>streams := streams s @ [b]\<rparr>)) = b"
  by (simp add: read_stream_def)

lemma read_stream_twice [simp]:
  "fst (read_stream a (snd (read_stream a s))) = []"
  by (simp add: read_stream_def)

lemma delete_document_trace:
  "\<exists>m. trace (delete_document env i s) = trace s @ [Delete i, Print m]"
  by (simp add: delete_document_def Let_def)

lemma delete_document_simps [simp]:
  "deletes (trace (delete_document env i s)) = deletes (trace s) @ [i]"
  "uploads (trace (delete_document env i s)) = uploads (trace s)"
  "updates (trace (delete_document env i s)) = updates (trace s)"
  "downloads (trace (delete_document env i s)) = downloads (trace s)"
  "content_stream (delete_document env i s) = content_stream s"
  "rep (delete_document env i s) = rep s"
  by (simp_all add: delete_document_def Let_def)

lemma fold_delete_simps [simp]:
  "deletes (trace (fold (\<lambda>doc. delete_document env (ident doc)) ds s)) = deletes (trace s) @ map ident ds"
  "uploads (trace (fold (\<lambda>doc. delete_document env (ident doc)) ds s)) = uploads (trace s)"
  "updates (trace (fold (\<lambda>doc. delete_document env (ident doc)) ds s)) = updates (trace s)"
  "downloads (trace (fold (\<lambda>doc. delete_document env (ident doc)) ds s)) = downloads (trace s)"
  "content_stream (fold (\<lambda>doc. delete_document env (ident doc)) ds s) = content_stream s"
  "rep (fold (\<lambda>doc. delete_document env (ident doc)) ds s) = rep s"
  by (induction ds arbitrary: s; simp)+

lemma upload_document_simps [simp]:
  "uploads (trace (snd (upload_document env n a s))) = uploads (trace s) @ [(n, fst (read_stream a s))]"
  "deletes (trace (snd (upload_document env n a s))) = deletes (trace s)"
  "updates (trace (snd (upload_document env n a s))) = updates (trace s)"
  "downloads (trace (snd (upload_document env n a s))) = downloads (trace s)"
  "content_stream (snd (upload_document env n a s)) = content_stream s"
  "rep (snd (upload_document env n a s)) = rep s"
  by (simp_all add: upload_document_def Let_def split: sink_reply.splits)

lemma download_file_simps [simp]:
  "downloads (trace (snd (download_file env f s))) = downloads (trace s) @ [(workspace_id f, ident f)]"
  "uploads (trace (snd (download_file env f s))) = uploads (trace s)"
  "deletes (trace (snd (download_file env f s))) = deletes (trace s)"
  "updates (trace (snd (download_file env f s))) = updates (trace s)"
  "content_stream (snd (download_file env f s)) = content_stream s"
  "rep (snd (download_file env f s)) = rep s"
  by (simp_all add: download_file_def Let_def)

subsection \<open>The canonical entry and the sorted duplicates\<close>

lemma last_insort_key:
  "zs \<noteq> [] \<Longrightarrow> sorted (map f zs) \<Longrightarrow>
     last (insort_key f y zs) = (if f (last zs) < f y then y else last zs)"
proof (induction zs)
  case Nil
  then show ?case by simp
next
  case (Cons z zs)
  show ?case
  proof (cases "f y \<le> f z")
    case True
    have "f z \<le> f (last (z # zs))"
      using Cons.prems(2) by (cases "zs = []") auto
    with True show ?thesis by auto
  next
    case False
    show ?thesis
    proof (cases "zs = []")
      case True
      with False show ?thesis by auto
    next
      case nonempty: False
      have "insort_key f y zs \<noteq> []" by (cases zs) auto
      with Cons False nonempty show ?thesis by auto
    qed
  qed
qed

lemma last_sort_key_rev:
  "xs \<noteq> [] \<Longrightarrow>
     last (sort_key f (rev xs)) = foldl (\<lambda>m y. if f m < f y then y else m) (hd xs) (tl xs)"
proof (induction xs rule: rev_induct)
  case Nil
  then show ?case by simp
next
  case (snoc y ys)
  show ?case
  proof (cases "ys = []")
    case True
    then show ?thesis by simp
  next
    case False
    have ne: "sort_key f (rev ys) \<noteq> []"
      using False by (metis length_0_conv length_sort length_rev)
    have "last (sort_key f (rev (ys @ [y]))) = last (insort_key f y (sort_key f (rev ys)))"
      by simp
    also have "\<dots> = (if f (last (sort_key f (rev ys))) < f y then y else last (sort_key f (rev ys)))"
      using ne by (rule last_insort_key) simp
    finally show ?thesis
      using False snoc.IH by simp
  qed
qed

lemma py_max_key_Inr:
  "xs \<noteq> [] \<Longrightarrow> py_max_key f xs = Inr (foldl (\<lambda>m y. if f m < f y then y else m) (hd xs) (tl xs))"
  by (cases xs) (simp_all add: py_max_key_def)

lemma py_sorted_reverse_hd:
  assumes "xs \<noteq> []"
  shows "\<exists>m rest. py_max_key f xs = Inr m \<and> py_sorted_reverse f xs = m # rest"
proof -
  let ?S = "sort_key f (rev xs)"
  have "?S \<noteq> []"
    using assms by (metis length_0_conv length_sort length_rev)
  then obtain b l where S: "?S = b @ [l]"
    by (cases ?S rule: rev_cases) auto
  then have "last ?S = l" by simp
  then have "l = foldl (\<lambda>m y. if f m < f y then y else m) (hd xs) (tl xs)"
    using last_sort_key_rev [OF assms, of f] by simp
  moreover have "py_sorted_reverse f xs = l # rev b"
    using S by (simp add: py_sorted_reverse_def)
  ultimately show ?thesis
    using assms by (simp add: py_max_key_Inr)
qed

lemma mset_py_sorted_reverse [simp]: "mset (py_sorted_reverse f xs) = mset xs"
  by (simp add: py_sorted_reverse_def)

lemma set_py_sorted_reverse [simp]: "set (py_sorted_reverse f xs) = set xs"
  by (simp add: py_sorted_reverse_def)

lemma py_sorted_reverse_descending: "sorted (rev (map f (py_sorted_reverse f xs)))"
  by (simp add: py_sorted_reverse_def rev_map)

lemma foldl_max_le:
  fixes f :: "'a \<Rightarrow> 'k::linorder"
  shows "f x \<le> f (foldl (\<lambda>m y. if f m < f y then y else m) x r) \<and>
         (\<forall>y\<in>set r. f y \<le> f (foldl (\<lambda>m y. if f m < f y then y else m) x r)) \<and>
         foldl (\<lambda>m y. if f m < f y then y else m) x r \<in> set (x # r)"
proof (induction r rule: rev_induct)
  case Nil
  show ?case by simp
next
  case (snoc y r)
  then show ?case by (auto simp: not_less intro: order_trans less_imp_le)
qed

lemma py_max_key_greatest:
  fixes f :: "'a \<Rightarrow> 'k::linorder"
  assumes "py_max_key f xs = Inr m"
  shows "m \<in> set xs \<and> (\<forall>x\<in>set xs. f x \<le> f m)"
proof (cases xs)
  case Nil
  with assms show ?thesis by (simp add: py_max_key_def)
next
  case (Cons x r)
  with assms have "m = foldl (\<lambda>m y. if f m < f y then y else m) x r"
    by (simp add: py_max_key_def)
  with foldl_max_le [of f x r] Cons show ?thesis by auto
qed

subsection \<open>The two loops\<close>

lemma update_branch_eq:
  assumes "py_max_key date (filter (\<lambda>d. name d = name file) E) = Inr m"
  shows "update_branch env E rd verbose file s =
     (Inr (),
      let same = filter (\<lambda>d. name d = name file) E;
          s1 = (if rd \<and> 1 < length same
                then fold (\<lambda>doc. delete_document env (ident doc)) (drop 1 (py_sorted_reverse date same)) s
                else s)
      in if date m \<le> date file then emit (Print (Updated_document (name file))) s1
         else if verbose then emit (Print (No_need_to_update (name file))) s1 else s1)"
  using assms dotted_extension_unsupported [of "name file"]
  by (simp add: update_branch_def Let_def)

lemma known_name_max:
  assumes "name file \<in> set (map name E)"
  shows "\<exists>m. py_max_key date (filter (\<lambda>d. name d = name file) E) = Inr m"
proof -
  from assms obtain d where "d \<in> set E" "name d = name file" by auto
  then have "filter (\<lambda>d. name d = name file) E \<noteq> []"
    by (auto simp: filter_empty_conv)
  then show ?thesis by (simp add: py_max_key_Inr)
qed

lemma update_branch_simps:
  assumes "name file \<in> set (map name E)"
  shows "fst (update_branch env E rd verbose file s) = Inr ()"
    and "deletes (trace (snd (update_branch env E rd verbose file s))) =
           deletes (trace s) @
           (if rd \<and> 1 < length (filter (\<lambda>d. name d = name file) E)
            then map ident (drop 1 (py_sorted_reverse date (filter (\<lambda>d. name d = name file) E)))
            else [])"
    and "uploads (trace (snd (update_branch env E rd verbose file s))) = uploads (trace s)"
    and "updates (trace (snd (update_branch env E rd verbose file s))) = updates (trace s)"
    and "downloads (trace (snd (update_branch env E rd verbose file s))) = downloads (trace s)"
    and "content_stream (snd (update_branch env E rd verbose file s)) = content_stream s"
    and "rep (snd (update_branch env E rd verbose file s)) = rep s"
  using known_name_max [OF assms]
  by (auto simp: update_branch_eq Let_def)

lemma try_block_simps [simp]:
  "deletes (trace (snd (try_block env verbose f s))) = deletes (trace s)"
  "updates (trace (snd (try_block env verbose f s))) = updates (trace s)"
  by (simp_all add: try_block_def Let_def case_prod_beta split: sum.splits)

lemma except_handler_simps [simp]:
  "deletes (trace (snd (except_handler env f s))) = deletes (trace s)"
  "updates (trace (snd (except_handler env f s))) = updates (trace s)"
  by (simp_all add: except_handler_def Let_def case_prod_beta split: sum.splits option.splits sink_reply.splits)

lemma create_branch_simps [simp]:
  "deletes (trace (snd (create_branch env verbose f s))) = deletes (trace s)"
  "updates (trace (snd (create_branch env verbose f s))) = updates (trace s)"
  by (simp_all add: create_branch_def Let_def case_prod_beta split: sum.splits option.splits sink_reply.splits)

lemma process_file_deletes:
  "deletes (trace (snd (process_file env E rd verbose f s))) = deletes (trace s) @ duplicate_ids E rd f"
  by (simp add: process_file_def Let_def update_branch_simps duplicate_ids_def)


lemma process_file_known:
  assumes "name f \<in> set (map name E)"
  shows "fst (process_file env E rd verbose f s) = Inr ()"
    and "uploads (trace (snd (process_file env E rd verbose f s))) = uploads (trace s)"
    and "downloads (trace (snd (process_file env E rd verbose f s))) = downloads (trace s)"
  using assms by (simp_all add: process_file_def Let_def update_branch_simps)


lemma sync_loop_deletes_done:
  "fst (sync_loop env E rd verbose D s) = Inr () \<Longrightarrow>
     deletes (trace (snd (sync_loop env E rd verbose D s))) =
       deletes (trace s) @ concat (map (duplicate_ids E rd) D)"
proof (induction D arbitrary: s)
  case Nil
  show ?case by simp
next
  case (Cons f D)
  then show ?case
    using Cons.IH [of "snd (process_file env E rd verbose f s)"]
    by (simp add: case_prod_beta process_file_deletes split: sum.splits)
qed

lemma sync_loop_known:
  "set (map name D) \<subseteq> set (map name E) \<Longrightarrow>
     fst (sync_loop env E rd verbose D s) = Inr () \<and>
     uploads (trace (snd (sync_loop env E rd verbose D s))) = uploads (trace s) \<and>
     downloads (trace (snd (sync_loop env E rd verbose D s))) = downloads (trace s)"
proof (induction D arbitrary: s)
  case Nil
  show ?case by simp
next
  case (Cons f D)
  have f: "name f \<in> set (map name E)" and D: "set (map name D) \<subseteq> set (map name E)"
    using Cons.prems by auto
  show ?case
    using Cons.IH [OF D, of "snd (process_file env E rd verbose f s)"]
    by (simp add: case_prod_beta process_file_known [OF f] split: sum.splits)
qed

lemma orphan_pass_simps:
  "deletes (trace (orphan_pass env D E verbose s)) =
     deletes (trace s) @ map ident (filter (\<lambda>d. name d \<notin> set (map name D)) E)"
  "uploads (trace (orphan_pass env D E verbose s)) = uploads (trace s)"
  "updates (trace (orphan_pass env D E verbose s)) = updates (trace s)"
  "downloads (trace (orphan_pass env D E verbose s)) = downloads (trace s)"
  unfolding orphan_pass_def
  by (induction E arbitrary: s; simp add: orphan_step_def Let_def)+

lemma print_existing_simps [simp]:
  "deletes (trace (print_existing E s)) = deletes (trace s)"
  "uploads (trace (print_existing E s)) = uploads (trace s)"
  "updates (trace (print_existing E s)) = updates (trace s)"
  "downloads (trace (print_existing E s)) = downloads (trace s)"
  "content_stream (print_existing E s) = content_stream s"
  "rep (print_existing E s) = rep s"
  unfolding print_existing_def
  by (induction E arbitrary: s rule: rev_induct; simp)+

subsection \<open>Auxiliary facts for the claims\<close>

lemma rme_identical_segments:
  assumes "CHR ''.'' \<notin> set seg" and "3 \<le> n"
  shows "remove_multiple_extensions (py_join ''.'' (replicate n seg)) = Inl IndexError"
proof -
  obtain k where n: "n = Suc k" using assms(2) by (cases n) auto
  have ne: "replicate n seg \<noteq> []" using assms(2) by auto
  have nodot: "\<forall>w\<in>set (replicate n seg). CHR ''.'' \<notin> set w" using assms(1) by simp
  have split: "py_split (CHR ''.'') (py_join ''.'' (replicate n seg)) = replicate n seg"
    using ne nodot by (rule py_split_join)
  have loop: "trailing_loop (replicate n seg) = Inl IndexError"
    unfolding n by (rule trailing_loop_replicate)
  have len: "2 < length (replicate n seg)" using assms(2) by simp
  show ?thesis
    unfolding remove_multiple_extensions_def Let_def split
    using len loop by (simp only: if_True sum.case)
qed

lemma list_files_single_error:
  assumes "''.'' @ extension d \<in> set extensions"
      and "remove_multiple_extensions (entry_name d) = Inl e"
  shows "list_files ts extensions project_id [d] tr = (Inl e, tr)"
  using assms by (simp add: list_files_def)

lemma list_files_loop_ok:
  assumes "\<forall>d\<in>set ds. ''.'' @ extension d \<in> set extensions \<longrightarrow>
             (\<exists>k. remove_multiple_extensions (entry_name d) = Inr k) \<and> (\<exists>t. ts (entry_date d) = Inr t)"
  shows "\<exists>docs.
     list_files_loop ts extensions project_id ds files tr =
       (Inr (files @ docs),
        tr @ map (\<lambda>d. Print (Not_supported_file (entry_name d)))
               (filter (\<lambda>d. ''.'' @ extension d \<notin> set extensions) ds)) \<and>
     map ident docs = map file_id (filter (\<lambda>d. ''.'' @ extension d \<in> set extensions) ds) \<and>
     map (\<lambda>x. Inr (name x)) docs =
       map (\<lambda>d. remove_multiple_extensions (entry_name d))
         (filter (\<lambda>d. ''.'' @ extension d \<in> set extensions) ds) \<and>
     map (\<lambda>x. Inr (date x)) docs =
       map (\<lambda>d. ts (entry_date d)) (filter (\<lambda>d. ''.'' @ extension d \<in> set extensions) ds) \<and>
     map workspace_id docs = map (\<lambda>d. Some project_id) (filter (\<lambda>d. ''.'' @ extension d \<in> set extensions) ds)"
  using assms
proof (induction ds arbitrary: files tr)
  case Nil
  show ?case by simp
next
  case (Cons d ds)
  have rest: "\<forall>d\<in>set ds. ''.'' @ extension d \<in> set extensions \<longrightarrow>
             (\<exists>k. remove_multiple_extensions (entry_name d) = Inr k) \<and> (\<exists>t. ts (entry_date d) = Inr t)"
    using Cons.prems by simp
  show ?case
  proof (cases "''.'' @ extension d \<in> set extensions")
    case False
    from Cons.IH [OF rest, of files "tr @ [Print (Not_supported_file (entry_name d))]"]
    obtain docs where "list_files_loop ts extensions project_id ds files
         (tr @ [Print (Not_supported_file (entry_name d))]) =
       (Inr (files @ docs),
        (tr @ [Print (Not_supported_file (entry_name d))]) @ map (\<lambda>d. Print (Not_supported_file (entry_name d)))
               (filter (\<lambda>d. ''.'' @ extension d \<notin> set extensions) ds))"
     "map ident docs = map file_id (filter (\<lambda>d. ''.'' @ extension d \<in> set extensions) ds)"
     "map (\<lambda>x. Inr (name x)) docs =
       map (\<lambda>d. remove_multiple_extensions (entry_name d))
         (filter (\<lambda>d. ''.'' @ extension d \<in> set extensions) ds)"
     "map (\<lambda>x. Inr (date x)) docs =
       map (\<lambda>d. ts (entry_date d)) (filter (\<lambda>d. ''.'' @ extension d \<in> set extensions) ds)"
     "map workspace_id docs = map (\<lambda>d. Some project_id) (filter (\<lambda>d. ''.'' @ extension d \<in> set extensions) ds)"
      by blast
    with False show ?thesis
      by (intro exI [of _ docs]) simp
  next
    case True
    with Cons.prems obtain k t where kt: "remove_multiple_extensions (entry_name d) = Inr k"
         "ts (entry_date d) = Inr t"
      by auto
    let ?x = "\<lparr>name = k, ident = file_id d, date = t, mime_type = None, workspace_id = Some project_id\<rparr>"
    from Cons.IH [OF rest, of "files @ [?x]" tr]
    obtain docs where "list_files_loop ts extensions project_id ds (files @ [?x]) tr =
       (Inr ((files @ [?x]) @ docs),
        tr @ map (\<lambda>d. Print (Not_supported_file (entry_name d)))
               (filter (\<lambda>d. ''.'' @ extension d \<notin> set extensions) ds))"
     "map ident docs = map file_id (filter (\<lambda>d. ''.'' @ extension d \<in> set extensions) ds)"
     "map (\<lambda>x. Inr (name x)) docs =
       map (\<lambda>d. remove_multiple_extensions (entry_name d))
         (filter (\<lambda>d. ''.'' @ extension d \<in> set extensions) ds)"
     "map (\<lambda>x. Inr (date x)) docs =
       map (\<lambda>d. ts (entry_date d)) (filter (\<lambda>d. ''.'' @ extension d \<in> set extensions) ds)"
     "map workspace_id docs = map (\<lambda>d. Some project_id) (filter (\<lambda>d. ''.'' @ extension d \<in> set extensions) ds)"
      by blast
    with True kt show ?thesis
      by (intro exI [of _ "?x # docs"]) simp
  qed
qed



lemma concat_all_empty: "(\<And>x. x \<in> set xs \<Longrightarrow> g x = []) \<Longrightarrow> concat (map g xs) = []"
  by (induction xs) auto

lemma distinct_ident_head:
  assumes "distinct (map ident E)"
      and "py_sorted_reverse date (filter P E) = canonical # dups"
  shows "ident canonical \<notin> set (map ident dups)"
proof -
  have "distinct (map ident (filter P E))"
    using assms(1) by (rule distinct_map_filter)
  moreover have "mset (map ident (py_sorted_reverse date (filter P E))) = mset (map ident (filter P E))"
    by simp
  ultimately have "distinct (map ident (py_sorted_reverse date (filter P E)))"
    by (metis mset_eq_imp_distinct_iff)
  then show ?thesis
    unfolding assms(2) by simp
qed





lemma synchronize_completes_when_all_known:
  assumes "set (map name D) \<subseteq> set (map name E)"
  shows "fst (synchronize_with_dify env D E remove_duplicates verbose h) = Inr () \<and>
         downloads (trace (snd (synchronize_with_dify env D E remove_duplicates verbose h))) = downloads h"
proof -
  let ?s = "\<lparr>trace = h, streams = [], content_stream = None, rep = None\<rparr>"
  let ?s0 = "if verbose then print_existing E ?s else ?s"
  obtain r s1 where p: "sync_loop env E remove_duplicates verbose D ?s0 = (r, s1)"
    by (cases "sync_loop env E remove_duplicates verbose D ?s0") blast
  from sync_loop_known [OF assms, of env remove_duplicates verbose ?s0]
  have "r = Inr ()" "downloads (trace s1) = downloads h"
    unfolding p by simp_all
  then show ?thesis
    unfolding synchronize_with_dify_def Let_def p by (simp add: orphan_pass_simps)
qed

lemma synchronize_deletes:
  assumes "fst (synchronize_with_dify env D E remove_duplicates verbose h) = Inr ()"
  shows "deletes (trace (snd (synchronize_with_dify env D E remove_duplicates verbose h))) =
           deletes h @ concat (map (duplicate_ids E remove_duplicates) D) @
           map ident (filter (\<lambda>d. name d \<notin> set (map name D)) E)"
proof -
  let ?s = "\<lparr>trace = h, streams = [], content_stream = None, rep = None\<rparr>"
  let ?s0 = "if verbose then print_existing E ?s else ?s"
  obtain r s1 where p: "sync_loop env E remove_duplicates verbose D ?s0 = (r, s1)"
    by (cases "sync_loop env E remove_duplicates verbose D ?s0") blast
  have run: "synchronize_with_dify env D E remove_duplicates verbose h =
          (case r of Inl e \<Rightarrow> (Inl e, s1) | Inr u \<Rightarrow> (Inr (), orphan_pass env D E verbose s1))"
    unfolding synchronize_with_dify_def Let_def p by simp
  with assms have r: "r = Inr ()" by (cases r) simp_all
  then have "fst (sync_loop env E remove_duplicates verbose D ?s0) = Inr ()"
    unfolding p by simp
  from sync_loop_deletes_done [OF this]
  have "deletes (trace s1) = deletes h @ concat (map (duplicate_ids E remove_duplicates) D)"
    unfolding p by simp
  then show ?thesis
    unfolding run r by (simp add: orphan_pass_simps)
qed

lemma read_stream_fst: "fst (read_stream a s) = (if a < length (streams s) then streams s ! a else [])"
  by (simp add: read_stream_def)

lemma read_stream_streams:
  "streams (snd (read_stream a s)) = (if a < length (streams s) then (streams s)[a := []] else streams s)"
  by (simp add: read_stream_def)

lemma delete_document_streams [simp]: "streams (delete_document env i s) = streams s"
  by (simp add: delete_document_def Let_def)

lemma read_stream_after_read:
  "streams s' = streams (snd (read_stream a s)) \<Longrightarrow> fst (read_stream a s') = []"
  by (simp add: read_stream_fst read_stream_streams)

lemma upload_document_trace:
  "\<exists>rest. trace (snd (upload_document env n a s)) = trace s @ [Upload n (fst (read_stream a s))] @ rest \<and>
          uploads rest = [] \<and> deletes rest = [] \<and> updates rest = [] \<and> downloads rest = []"
  by (simp add: upload_document_def Let_def split: sink_reply.splits)

lemma try_block_uploads:
  "\<exists>new. uploads (trace (snd (try_block env verbose file s))) = uploads (trace s) @ new \<and> length new \<le> 1"
  by (simp add: try_block_def Let_def case_prod_beta split: sum.splits)

lemma except_handler_uploads:
  "\<exists>new. uploads (trace (snd (except_handler env file s))) = uploads (trace s) @ new \<and> length new \<le> 1"
  by (simp add: except_handler_def Let_def case_prod_beta split: sum.splits option.splits)

lemma create_branch_at_most_two_uploads:
  "\<exists>new. uploads (trace (snd (create_branch env verbose file s))) = uploads (trace s) @ new \<and>
         length new \<le> 2"
proof -
  obtain r1 s1 where t: "try_block env verbose file s = (r1, s1)"
    by (cases "try_block env verbose file s") blast
  from try_block_uploads [of env verbose "file" s] obtain n1
    where n1: "uploads (trace s1) = uploads (trace s) @ n1" "length n1 \<le> 1"
    unfolding t by auto
  obtain r2 s2 where h: "(case r1 of Inl e \<Rightarrow> except_handler env file s1 | Inr u \<Rightarrow> (Inr u, s1)) = (r2, s2)"
    by (cases "case r1 of Inl e \<Rightarrow> except_handler env file s1 | Inr u \<Rightarrow> (Inr u, s1)") blast
  have "\<exists>n2. uploads (trace s2) = uploads (trace s1) @ n2 \<and> length n2 \<le> 1"
  proof (cases r1)
    case (Inl e)
    with h have "except_handler env file s1 = (r2, s2)" by simp
    with except_handler_uploads [of env "file" s1] show ?thesis by auto
  next
    case (Inr u)
    with h show ?thesis by simp
  qed
  then obtain n2 where n2: "uploads (trace s2) = uploads (trace s1) @ n2" "length n2 \<le> 1"
    by blast
  have "uploads (trace (snd (create_branch env verbose file s))) = uploads (trace s2)"
    unfolding create_branch_def t using h
    by (cases r2) (simp_all add: Let_def split: option.splits)
  with n1 n2 show ?thesis
    by (intro exI [of _ "n1 @ n2"]) simp
qed


text \<open>
  A failed download after an earlier one: the handler hands on the stream that the
  earlier iteration left in \<^verbatim>\<open>content_stream\<close>, under the new name. After a file
  that was uploaded the stream has been read, and the new document is created empty;
  after a file that was skipped the stream is unread, and the new document is created
  with the skipped file's bytes.
\<close>

lemma stale_stream_uploaded_empty:
  "synchronize_with_dify
     \<lparr>download_resp = (\<lambda>h w i. if i = ''2'' then (500, []) else (200, ''bytes of 1'')),
      upload_resp = (\<lambda>h n c. With_document ''doc''),
      update_resp = (\<lambda>h n i c. With_document ''doc''),
      delete_resp = (\<lambda>h i. 200)\<rparr>
     [new_Document ''a.pdf'' ''1'' 100, new_Document ''b.pdf'' ''2'' 100] [] True False [] =
   (Inr (),
    \<lparr>trace = [Print (Downloading ''a.pdf''), Print (Workspace_line None), Download None ''1'',
              Upload ''a.pdf'' ''bytes of 1'',
              Print (Downloading ''b.pdf''), Print (Workspace_line None), Download None ''2'',
              Print (Error_uploading ''b.pdf''), Print Trying_again,
              Upload ''b.pdf'' [], Print Success],
     streams = [[]], content_stream = Some 0, rep = Some ''doc''\<rparr>)"
  by code_simp

lemma stale_stream_uploaded_unread:
  "synchronize_with_dify
     \<lparr>download_resp = (\<lambda>h w i. if i = ''2'' then (500, []) else (200, ''bytes of 1'')),
      upload_resp = (\<lambda>h n c. With_document ''doc''),
      update_resp = (\<lambda>h n i c. With_document ''doc''),
      delete_resp = (\<lambda>h i. 200)\<rparr>
     [new_Document ''notes.xyz'' ''1'' 100, new_Document ''b.pdf'' ''2'' 100] [] True False [] =
   (Inr (),
    \<lparr>trace = [Print (Downloading ''notes.xyz''), Print (Workspace_line None), Download None ''1'',
              Print (Downloading ''b.pdf''), Print (Workspace_line None), Download None ''2'',
              Print (Error_uploading ''b.pdf''), Print Trying_again,
              Upload ''b.pdf'' ''bytes of 1'', Print Success],
     streams = [[]], content_stream = Some 0, rep = Some ''doc''\<rparr>)"
  by code_simp

text \<open>
  A create that the sink rejects is sent once more, with the stream the first request
  has read: the second request carries an empty file.
\<close>

lemma rejected_create_retried_empty:
  "synchronize_with_dify (fixed_env 200 ''body'' Without_document (With_document ''doc'') 200)
     [new_Document ''new.pdf'' ''7'' 100] [] True False [] =
   (Inl KeyError,
    \<lparr>trace = [Print (Downloading ''new.pdf''), Print (Workspace_line None), Download None ''7'',
              Upload ''new.pdf'' ''body'', Print (KeyError_with ''new.pdf''), Print Response_json,
              Print (Error_uploading ''new.pdf''), Print Trying_again,
              Upload ''new.pdf'' [], Print (KeyError_with ''new.pdf''), Print Response_json],
     streams = [[]], content_stream = Some 0, rep = None\<rparr>)"
  by code_simp

text \<open>
  What \<^verbatim>\<open>update_document\<close> does when the reply to the update has no
  \<^verbatim>\<open>document\<close> entry, for any stream: update, delete, upload, in this order, and the
  upload carries nothing, the update having read the stream.
\<close>

lemma rejected_update_trace:
  assumes "update_resp env (trace s) n i (fst (read_stream a s)) = Without_document"
  shows "\<exists>m rest. trace (snd (update_document env n i a s)) =
           trace s @ [Update n i (fst (read_stream a s)), Print Deleting_and_performing_again,
                      Delete i, Print m, Upload n []] @ rest \<and>
           uploads rest = [] \<and> deletes rest = [] \<and> updates rest = []"
proof -
  let ?s2 = "emit (Print Deleting_and_performing_again)
               (emit (Update n i (fst (read_stream a s))) (snd (read_stream a s)))"
  let ?s3 = "delete_document env i ?s2"
  obtain m where m: "trace ?s3 = trace ?s2 @ [Delete i, Print m]"
    using delete_document_trace by blast
  have "streams ?s3 = streams (snd (read_stream a s))" by simp
  then have e: "fst (read_stream a ?s3) = []"
    by (rule read_stream_after_read)
  from upload_document_trace [of env n a ?s3] obtain rest
    where rest: "trace (snd (upload_document env n a ?s3)) = trace ?s3 @ [Upload n []] @ rest"
      "uploads rest = []" "deletes rest = []" "updates rest = []"
    unfolding e by blast
  have "snd (update_document env n i a s) = snd (upload_document env n a ?s3)"
    using assms by (simp add: update_document_def Let_def case_prod_beta split: sum.splits)
  then have "trace (snd (update_document env n i a s)) =
           trace s @ [Update n i (fst (read_stream a s)), Print Deleting_and_performing_again,
                      Delete i, Print m, Upload n []] @ rest"
    using rest(1) m by simp
  with rest(2-4) show ?thesis by blast
qed

section \<open>The claims\<close>

subsection \<open>C1: update only when stale\<close>

text \<open>
  Claim C1, at the input where the code departs from it. The drive has a.pdf, modified
  at time 100; the sink has one a.pdf, created at time 50. The claim asks for a download
  and an update. Line 444 puts a second dot before the extension that
  \<^verbatim>\<open>os.path.splitext\<close> already returns with its dot, so the test of line 445 fails:
  the run prints that the document was updated and sends no request at all.
\<close>

theorem stale_entry_is_not_updated:
  "synchronize_with_dify env [new_Document ''a.pdf'' ''7'' 100] [new_Document ''a.pdf'' ''s1'' 50]
     remove_duplicates False h =
   (Inr (), \<lparr>trace = h @ [Print (Updated_document ''a.pdf'')], streams = [],
             content_stream = None, rep = None\<rparr>)"
  by code_simp simp

subsection \<open>C2: running again\<close>




subsection \<open>C3: duplicates\<close>

text \<open>
  Claim C3. Let more than one entry of the sink bear the name of the file at hand, and
  let duplicates be removed. The entries of that name, sorted from the latest down,
  start with the canonical entry, the one \<^verbatim>\<open>max\<close> selects; none of them is later
  than it. The iteration hands every other entry of that name to
  \<^verbatim>\<open>delete_document\<close>, each once, and not the canonical entry (sink ids being
  distinct); the deletions are in the trace before the line that reports the update
  decision, and nothing follows them but that line.
\<close>

theorem duplicates_deleted_before_decision:
  assumes "1 < length (filter (\<lambda>d. name d = name file) E)"
  shows "\<exists>canonical dups s1.
           py_max_key date (filter (\<lambda>d. name d = name file) E) = Inr canonical \<and>
           py_sorted_reverse date (filter (\<lambda>d. name d = name file) E) = canonical # dups \<and>
           mset (filter (\<lambda>d. name d = name file) E) = add_mset canonical (mset dups) \<and>
           (\<forall>d\<in>set (filter (\<lambda>d. name d = name file) E). date d \<le> date canonical) \<and>
           (distinct (map ident E) \<longrightarrow> ident canonical \<notin> set (map ident dups)) \<and>
           s1 = fold (\<lambda>doc. delete_document env (ident doc)) dups
                  (if verbose then emit (Print (Processing_file (name file) (ident file))) s else s) \<and>
           deletes (trace s1) = deletes (trace s) @ map ident dups \<and>
           process_file env E True verbose file s =
             (Inr (),
              s1\<lparr>trace := trace s1 @
                   (if date canonical \<le> date file then [Print (Updated_document (name file))]
                    else if verbose then [Print (No_need_to_update (name file))] else [])\<rparr>)"
proof -
  let ?same = "filter (\<lambda>d. name d = name file) E"
  let ?s0 = "if verbose then emit (Print (Processing_file (name file) (ident file))) s else s"
  have ne: "?same \<noteq> []" using assms by auto
  then obtain canonical dups where cd: "py_max_key date ?same = Inr canonical"
      "py_sorted_reverse date ?same = canonical # dups"
    using py_sorted_reverse_hd [of ?same date] by blast
  have known: "name file \<in> set (map name E)"
  proof -
    from ne obtain d where "d \<in> set ?same" by (cases ?same) auto
    then have d: "d \<in> set E" "name d = name file" by auto
    from d(1) have "name d \<in> name ` set E" by (rule imageI)
    then show ?thesis unfolding d(2) by simp
  qed
  have m: "mset ?same = add_mset canonical (mset dups)"
    using mset_py_sorted_reverse [of date ?same] unfolding cd(2) by simp
  have g: "\<forall>d\<in>set ?same. date d \<le> date canonical"
    using py_max_key_greatest [OF cd(1)] by blast
  have i: "distinct (map ident E) \<longrightarrow> ident canonical \<notin> set (map ident dups)"
    using distinct_ident_head [OF _ cd(2)] by blast
  let ?s1 = "fold (\<lambda>doc. delete_document env (ident doc)) dups ?s0"
  have d: "deletes (trace ?s1) = deletes (trace s) @ map ident dups"
    by simp
  have p: "process_file env E True verbose file s =
             (Inr (),
              ?s1\<lparr>trace := trace ?s1 @
                   (if date canonical \<le> date file then [Print (Updated_document (name file))]
                    else if verbose then [Print (No_need_to_update (name file))] else [])\<rparr>)"
    using known assms
    by (simp add: process_file_def update_branch_eq [OF cd(1)] cd(2) Let_def emit_def)
  from cd m g i d p show ?thesis by blast
qed

theorem duplicates_deleted_before_decision_witness:
  "1 < length (filter (\<lambda>d. name d = name (new_Document ''x'' ''7'' 100)) three_x) \<and>
   py_sorted_reverse date (filter (\<lambda>d. name d = name (new_Document ''x'' ''7'' 100)) three_x) =
     [new_Document ''x'' ''s2'' 20, new_Document ''x'' ''s3'' 15, new_Document ''x'' ''s1'' 10] \<and>
   (\<exists>s1. deletes (trace s1) = [''s3'', ''s1''] \<and>
      process_file (fixed_env 200 ''body'' (With_document ''doc'') (With_document ''doc'') 200) three_x True False
        (new_Document ''x'' ''7'' 100) \<lparr>trace = [], streams = [], content_stream = None, rep = None\<rparr> =
      (Inr (), s1\<lparr>trace := trace s1 @ [Print (Updated_document ''x'')]\<rparr>))"
proof -
  have a: "1 < length (filter (\<lambda>d. name d = name (new_Document ''x'' ''7'' 100)) three_x)"
    by code_simp
  have b: "py_sorted_reverse date (filter (\<lambda>d. name d = name (new_Document ''x'' ''7'' 100)) three_x) =
     [new_Document ''x'' ''s2'' 20, new_Document ''x'' ''s3'' 15, new_Document ''x'' ''s1'' 10]"
    by code_simp
  from duplicates_deleted_before_decision [OF a, of "fixed_env 200 ''body'' (With_document ''doc'') (With_document ''doc'') 200"
      False "\<lparr>trace = [], streams = [], content_stream = None, rep = None\<rparr>"]
  obtain canonical dups s1 where h:
    "py_sorted_reverse date (filter (\<lambda>d. name d = name (new_Document ''x'' ''7'' 100)) three_x) = canonical # dups"
    "deletes (trace s1) = deletes (trace \<lparr>trace = [], streams = [], content_stream = None, rep = None\<rparr>) @ map ident dups"
    "process_file (fixed_env 200 ''body'' (With_document ''doc'') (With_document ''doc'') 200) three_x True False
        (new_Document ''x'' ''7'' 100) \<lparr>trace = [], streams = [], content_stream = None, rep = None\<rparr> =
      (Inr (), s1\<lparr>trace := trace s1 @
          (if date canonical \<le> date (new_Document ''x'' ''7'' 100)
           then [Print (Updated_document (name (new_Document ''x'' ''7'' 100)))]
           else if False then [Print (No_need_to_update (name (new_Document ''x'' ''7'' 100)))] else [])\<rparr>)"
    by blast
  from h(1) b have c: "canonical = new_Document ''x'' ''s2'' 20"
    "dups = [new_Document ''x'' ''s3'' 15, new_Document ''x'' ''s1'' 10]" by simp_all
  have "deletes (trace s1) = [''s3'', ''s1'']"
    using h(2) unfolding c by (simp add: new_Document_def)
  moreover have "process_file (fixed_env 200 ''body'' (With_document ''doc'') (With_document ''doc'') 200) three_x True False
        (new_Document ''x'' ''7'' 100) \<lparr>trace = [], streams = [], content_stream = None, rep = None\<rparr> =
      (Inr (), s1\<lparr>trace := trace s1 @ [Print (Updated_document ''x'')]\<rparr>)"
    using h(3) unfolding c by (simp add: new_Document_def)
  ultimately show ?thesis using a b by blast
qed

subsection \<open>C4: orphans\<close>

text \<open>
  Claim C4. When the first loop has gone through the drive's files without an
  exception, the second loop runs on its final state. It hands to
  \<^verbatim>\<open>delete_document\<close> the entries of the sink whose name no file of the drive
  bears, each once and in the sink's order, and no other entry; it sends no other
  request. With a.pdf on the drive and a.pdf and b.pdf in the sink, the one request is
  the delete of b.pdf.
\<close>

theorem orphans_deleted_after_first_loop:
  assumes "sync_loop env E remove_duplicates verbose D
             (if verbose then print_existing E \<lparr>trace = h, streams = [], content_stream = None, rep = None\<rparr>
              else \<lparr>trace = h, streams = [], content_stream = None, rep = None\<rparr>) = (Inr (), s1)"
  shows "synchronize_with_dify env D E remove_duplicates verbose h =
           (Inr (), orphan_pass env D E verbose s1) \<and>
         deletes (trace (orphan_pass env D E verbose s1)) =
           deletes (trace s1) @ map ident (filter (\<lambda>d. name d \<notin> set (map name D)) E) \<and>
         uploads (trace (orphan_pass env D E verbose s1)) = uploads (trace s1) \<and>
         updates (trace (orphan_pass env D E verbose s1)) = updates (trace s1) \<and>
         downloads (trace (orphan_pass env D E verbose s1)) = downloads (trace s1)"
proof -
  have "synchronize_with_dify env D E remove_duplicates verbose h =
           (Inr (), orphan_pass env D E verbose s1)"
    using assms by (simp add: synchronize_with_dify_def Let_def)
  then show ?thesis
    by (simp only: orphan_pass_simps simp_thms)
qed

theorem orphans_deleted_after_first_loop_witness:
  "synchronize_with_dify (fixed_env 200 ''body'' (With_document ''doc'') (With_document ''doc'') 200)
     [new_Document ''a.pdf'' ''7'' 100]
     [new_Document ''a.pdf'' ''s1'' 150, new_Document ''b.pdf'' ''s2'' 150] True False [] =
   (Inr (), \<lparr>trace = [Delete ''s2'', Print (Deleted_successfully ''s2'')], streams = [],
             content_stream = None, rep = None\<rparr>) \<and>
   map ident (filter (\<lambda>d. name d \<notin> set (map name [new_Document ''a.pdf'' ''7'' 100]))
     [new_Document ''a.pdf'' ''s1'' 150, new_Document ''b.pdf'' ''s2'' 150]) = [''s2'']"
proof -
  have a: "sync_loop (fixed_env 200 ''body'' (With_document ''doc'') (With_document ''doc'') 200)
             [new_Document ''a.pdf'' ''s1'' 150, new_Document ''b.pdf'' ''s2'' 150] True False
             [new_Document ''a.pdf'' ''7'' 100]
             (if False then print_existing [new_Document ''a.pdf'' ''s1'' 150, new_Document ''b.pdf'' ''s2'' 150]
                              \<lparr>trace = [], streams = [], content_stream = None, rep = None\<rparr>
              else \<lparr>trace = [], streams = [], content_stream = None, rep = None\<rparr>) =
           (Inr (), \<lparr>trace = [], streams = [], content_stream = None, rep = None\<rparr>)"
    by code_simp
  have b: "orphan_pass (fixed_env 200 ''body'' (With_document ''doc'') (With_document ''doc'') 200)
             [new_Document ''a.pdf'' ''7'' 100]
             [new_Document ''a.pdf'' ''s1'' 150, new_Document ''b.pdf'' ''s2'' 150] False
             \<lparr>trace = [], streams = [], content_stream = None, rep = None\<rparr> =
           \<lparr>trace = [Delete ''s2'', Print (Deleted_successfully ''s2'')], streams = [],
             content_stream = None, rep = None\<rparr>"
    by code_simp
  have c: "map ident (filter (\<lambda>d. name d \<notin> set (map name [new_Document ''a.pdf'' ''7'' 100]))
     [new_Document ''a.pdf'' ''s1'' 150, new_Document ''b.pdf'' ''s2'' 150]) = [''s2'']"
    by code_simp
  from orphans_deleted_after_first_loop [OF a, THEN conjunct1] b c show ?thesis
    by (simp only: simp_thms)
qed

subsection \<open>C5: new documents\<close>

text \<open>
  Against claim C5 as stated: with \<^verbatim>\<open>verbose\<close> off, a new file of an unsupported
  type is downloaded and skipped, and nothing but the two lines of the download is
  printed.
\<close>

theorem unsupported_type_not_logged_when_quiet:
  "synchronize_with_dify (fixed_env 200 ''body'' (With_document ''doc'') (With_document ''doc'') 200)
     [new_Document ''notes.xyz'' ''7'' 100] [] True False [] =
   (Inr (),
    \<lparr>trace = [Print (Downloading ''notes.xyz''), Print (Workspace_line None), Download None ''7''],
     streams = [''body''], content_stream = Some 0, rep = None\<rparr>)"
  by code_simp

text \<open>
  Claim C5, as amended. Take a file whose name the sink does not have and whose
  download succeeds. The iteration downloads it by its id. If its extension is among
  the extraction-capable ones, the first request sent to the sink is an upload of the
  downloaded content under its name; when the sink accepts it, it is the only one and
  the iteration ends without exception. Otherwise no upload is sent, and the line about
  the unsupported file type is printed when \<^verbatim>\<open>verbose\<close> is on and only then.
\<close>

theorem create_on_absence:
  assumes "name file \<notin> set (map name E)"
      and "download_resp env
             (trace s @ (if verbose then [Print (Processing_file (name file) (ident file))] else []) @
              [Print (Downloading (name file)), Print (Workspace_line (workspace_id file))])
             (workspace_id file) (ident file) = (200, c)"
  shows "downloads (trace (snd (process_file env E remove_duplicates verbose file s))) =
           downloads (trace s) @ [(workspace_id file, ident file)] \<and>
         (if snd (splitext (name file)) \<in> set SUPPORTED_EXTENSIONS_UNSTRUCTURED
          then \<exists>rest.
                 uploads (trace (snd (process_file env E remove_duplicates verbose file s))) =
                   uploads (trace s) @ [(name file, c)] @ rest \<and>
                 (case upload_resp env
                         (trace s @ (if verbose then [Print (Processing_file (name file) (ident file))] else []) @
                          [Print (Downloading (name file)), Print (Workspace_line (workspace_id file)),
                           Download (workspace_id file) (ident file)])
                         (name file) c of
                    With_document r \<Rightarrow>
                      rest = [] \<and> fst (process_file env E remove_duplicates verbose file s) = Inr ()
                  | Without_document \<Rightarrow> True
                  | Not_an_object \<Rightarrow> True
                  | Not_JSON \<Rightarrow> True)
          else uploads (trace (snd (process_file env E remove_duplicates verbose file s))) =
                 uploads (trace s) \<and>
               (\<exists>rest. prints (trace (snd (process_file env E remove_duplicates verbose file s))) =
                  prints (trace s) @
                  (if verbose
                   then [Processing_file (name file) (ident file), Downloading (name file),
                         Workspace_line (workspace_id file),
                         Unsupported_file_type (snd (splitext (name file)))] @ rest
                   else [Downloading (name file), Workspace_line (workspace_id file)])))"
proof (cases verbose)
  case True
  with assms show ?thesis
    by (auto simp: process_file_def create_branch_def try_block_def except_handler_def
          download_file_def upload_document_def emit_def Let_def BytesIO_def read_stream_def
          split: option.splits sink_reply.splits)
next
  case False
  with assms show ?thesis
    by (auto simp: process_file_def create_branch_def try_block_def except_handler_def
          download_file_def upload_document_def emit_def Let_def BytesIO_def read_stream_def
          split: option.splits sink_reply.splits)
qed

theorem create_on_absence_witness:
  "process_file (fixed_env 200 ''body'' (With_document ''doc'') (With_document ''doc'') 200) [] True True
      (new_Document ''new.pdf'' ''7'' 100) \<lparr>trace = [], streams = [], content_stream = None, rep = None\<rparr> =
   (Inr (),
    \<lparr>trace = [Print (Processing_file ''new.pdf'' ''7''), Print (Downloading ''new.pdf''),
              Print (Workspace_line None), Download None ''7'', Upload ''new.pdf'' ''body'',
              Print (Uploaded_new_document ''new.pdf''), Print (Rep_line ''doc'')],
     streams = [[]], content_stream = Some 0, rep = Some ''doc''\<rparr>) \<and>
   snd (splitext ''notes.xyz'') \<notin> set SUPPORTED_EXTENSIONS_UNSTRUCTURED \<and>
   fst (process_file (fixed_env 200 ''body'' (With_document ''doc'') (With_document ''doc'') 200) [] True True
      (new_Document ''notes.xyz'' ''8'' 100)
      \<lparr>trace = [], streams = [[]], content_stream = Some 0, rep = Some ''doc''\<rparr>) = Inr () \<and>
   uploads (trace (snd (process_file
      (fixed_env 200 ''body'' (With_document ''doc'') (With_document ''doc'') 200) [] True True
      (new_Document ''notes.xyz'' ''8'' 100)
      \<lparr>trace = [], streams = [[]], content_stream = Some 0, rep = Some ''doc''\<rparr>))) = [] \<and>
   (\<exists>rest. prints (trace (snd (process_file
      (fixed_env 200 ''body'' (With_document ''doc'') (With_document ''doc'') 200) [] True True
      (new_Document ''notes.xyz'' ''8'' 100)
      \<lparr>trace = [], streams = [[]], content_stream = Some 0, rep = Some ''doc''\<rparr>))) =
      [Processing_file ''notes.xyz'' ''8'', Downloading ''notes.xyz'', Workspace_line None,
       Unsupported_file_type ''.xyz''] @ rest)"
proof -
  let ?env = "fixed_env 200 ''body'' (With_document ''doc'') (With_document ''doc'') 200"
  let ?s = "\<lparr>trace = [], streams = [[]], content_stream = Some 0, rep = Some ''doc''\<rparr>"
  have a: "name (new_Document ''notes.xyz'' ''8'' 100) \<notin> set (map name [])"
    by simp
  have b: "download_resp ?env
             (trace ?s @
              (if True then [Print (Processing_file (name (new_Document ''notes.xyz'' ''8'' 100))
                                     (ident (new_Document ''notes.xyz'' ''8'' 100)))] else []) @
              [Print (Downloading (name (new_Document ''notes.xyz'' ''8'' 100))),
               Print (Workspace_line (workspace_id (new_Document ''notes.xyz'' ''8'' 100)))])
             (workspace_id (new_Document ''notes.xyz'' ''8'' 100))
             (ident (new_Document ''notes.xyz'' ''8'' 100)) = (200, ''body'')"
    by (simp add: fixed_env_def)
  have c: "snd (splitext (name (new_Document ''notes.xyz'' ''8'' 100))) = ''.xyz''"
    by code_simp
  have d: "''.xyz'' \<notin> set SUPPORTED_EXTENSIONS_UNSTRUCTURED"
    by code_simp
  have e: "snd (splitext ''notes.xyz'') = ''.xyz''"
    by code_simp
  have skipped: "uploads (trace (snd (process_file ?env [] True True (new_Document ''notes.xyz'' ''8'' 100) ?s))) = [] \<and>
     (\<exists>rest. prints (trace (snd (process_file ?env [] True True (new_Document ''notes.xyz'' ''8'' 100) ?s))) =
        [Processing_file ''notes.xyz'' ''8'', Downloading ''notes.xyz'', Workspace_line None,
         Unsupported_file_type ''.xyz''] @ rest)"
    using create_on_absence [OF a b, of True] c d by (simp add: new_Document_def)
  have returns: "fst (process_file ?env [] True True (new_Document ''notes.xyz'' ''8'' 100) ?s) = Inr ()"
    by code_simp
  have created: "process_file ?env [] True True
      (new_Document ''new.pdf'' ''7'' 100) \<lparr>trace = [], streams = [], content_stream = None, rep = None\<rparr> =
   (Inr (),
    \<lparr>trace = [Print (Processing_file ''new.pdf'' ''7''), Print (Downloading ''new.pdf''),
              Print (Workspace_line None), Download None ''7'', Upload ''new.pdf'' ''body'',
              Print (Uploaded_new_document ''new.pdf''), Print (Rep_line ''doc'')],
     streams = [[]], content_stream = Some 0, rep = Some ''doc''\<rparr>)"
    by code_simp
  from created skipped returns d e show ?thesis
    by simp
qed

subsection \<open>C6: the identity key\<close>

text \<open>
  Against claim C6 as stated: Report.PDF and report.pdf are each their own key.
\<close>

theorem letter_case_is_kept:
  "remove_multiple_extensions ''Report.PDF'' = Inr ''Report.PDF'' \<and>
   remove_multiple_extensions ''report.pdf'' = Inr ''report.pdf''"
  by code_simp

text \<open>
  Claim C6, as amended. The identity key of a listed file is
  \<^verbatim>\<open>remove_multiple_extensions\<close> of its name. No letter is changed: whenever the
  function returns, the key is an initial part of the file name as given. A name of at
  most two segments is its own key; a longer name loses the repeats of its last
  segment, down to one occurrence. The name report.pdf.pdf has the key report.pdf.
  The claim as stated also promises case normalisation, which the code does not have:
  two names that differ only in letter case keep two different keys.
\<close>

theorem normalized_key:
  assumes "remove_multiple_extensions filename = Inr key"
  shows "prefix key filename \<and>
         (if length (py_split (CHR ''.'') filename) \<le> 2 then key = filename
          else \<exists>ps x n. py_split (CHR ''.'') filename = ps @ replicate (Suc n) x \<and> ps \<noteq> [] \<and>
                 last ps \<noteq> x \<and> key = py_join ''.'' (ps @ [x]))"
proof (cases "length (py_split (CHR ''.'') filename) \<le> 2")
  case True
  with assms show ?thesis by (simp add: remove_multiple_extensions_def Let_def)
next
  case False
  then have long: "2 < length (py_split (CHR ''.'') filename)" by simp
  obtain r where r: "trailing_loop (py_split (CHR ''.'') filename) = Inr r" "key = py_join ''.'' r"
  proof (cases "trailing_loop (py_split (CHR ''.'') filename)")
    case (Inl e)
    with assms long show ?thesis by (simp add: remove_multiple_extensions_def)
  next
    case (Inr r)
    with assms long that show ?thesis by (simp add: remove_multiple_extensions_def)
  qed
  from trailing_loop_prefix [OF r(1)]
  have "prefix (py_join ''.'' r) (py_join ''.'' (py_split (CHR ''.'') filename))"
    by (intro py_join_prefix) auto
  then have "prefix key filename"
    using r(2) py_join_split [of "CHR ''.''" filename] by simp
  moreover from trailing_loop_Inr [OF r(1)] r(2)
  have "\<exists>ps x n. py_split (CHR ''.'') filename = ps @ replicate (Suc n) x \<and> ps \<noteq> [] \<and>
                 last ps \<noteq> x \<and> key = py_join ''.'' (ps @ [x])"
    by blast
  ultimately show ?thesis using False by simp
qed

theorem normalized_key_witness:
  "remove_multiple_extensions ''report.pdf.pdf'' = Inr ''report.pdf'' \<and>
   prefix ''report.pdf'' ''report.pdf.pdf''"
proof -
  have a: "remove_multiple_extensions ''report.pdf.pdf'' = Inr ''report.pdf''" by code_simp
  show ?thesis using normalized_key [OF a, THEN conjunct1] a by simp
qed

subsection \<open>C7: names that cannot be normalised\<close>

text \<open>
  Claim C7. Normalisation is not total. A file name made of three or more identical
  segments separated by dots (the segment itself without a dot) makes the loop strip
  segments until one is left and then read \<^verbatim>\<open>parts[-2]\<close> of a one-element list:
  \<^verbatim>\<open>remove_multiple_extensions\<close> raises IndexError, and so does a folder listing
  that holds such a name with a supported extension.
\<close>

theorem identical_segments_raise_IndexError:
  assumes "CHR ''.'' \<notin> set seg" and "3 \<le> n"
      and "entry_name d = py_join ''.'' (replicate n seg)"
      and "''.'' @ extension d \<in> set extensions"
  shows "remove_multiple_extensions (py_join ''.'' (replicate n seg)) = Inl IndexError \<and>
         list_files ts extensions project_id [d] tr = (Inl IndexError, tr)"
proof -
  have a: "remove_multiple_extensions (py_join ''.'' (replicate n seg)) = Inl IndexError"
    using assms(1,2) by (rule rme_identical_segments)
  then have "remove_multiple_extensions (entry_name d) = Inl IndexError"
    by (simp only: assms(3))
  with assms(4) have "list_files ts extensions project_id [d] tr = (Inl IndexError, tr)"
    by (rule list_files_single_error)
  with a show ?thesis by (rule conjI)
qed

theorem identical_segments_raise_IndexError_witness:
  "remove_multiple_extensions ''pdf.pdf.pdf'' = Inl IndexError \<and>
   list_files (\<lambda>t. Inr 0) (WimiFileSource_extensions None) 1
     [\<lparr>entry_name = ''pdf.pdf.pdf'', extension = ''pdf'', file_id = ''7'', entry_date = ''2024''\<rparr>] [] =
   (Inl IndexError, [])"
proof -
  have a: "CHR ''.'' \<notin> set ''pdf''" by simp
  have b: "(3::nat) \<le> 3" by simp
  have c: "entry_name \<lparr>entry_name = ''pdf.pdf.pdf'', extension = ''pdf'', file_id = ''7'', entry_date = ''2024''\<rparr>
             = py_join ''.'' (replicate 3 ''pdf'')" by code_simp
  have d: "''.'' @ extension \<lparr>entry_name = ''pdf.pdf.pdf'', extension = ''pdf'', file_id = ''7'', entry_date = ''2024''\<rparr>
             \<in> set (WimiFileSource_extensions None)" by code_simp
  have e: "py_join ''.'' (replicate 3 ''pdf'') = ''pdf.pdf.pdf''" by code_simp
  show ?thesis
    using identical_segments_raise_IndexError [OF a b c d] by (simp only: e)
qed

subsection \<open>C8: the retry\<close>

text \<open>
  Claim C8, at the input where the code departs from it. The sink is empty, the drive
  has new.pdf, and the download fails. The handler of line 463 runs, but the variable
  \<^verbatim>\<open>content_stream\<close> was never assigned: the run ends with UnboundLocalError and
  no upload was sent.
\<close>

theorem failed_download_makes_no_create:
  "synchronize_with_dify (fixed_env 500 [] (With_document ''doc'') (With_document ''doc'') 200)
     [new_Document ''new.pdf'' ''7'' 100] [] True False [] =
   (Inl UnboundLocalError,
    \<lparr>trace = [Print (Downloading ''new.pdf''), Print (Workspace_line None), Download None ''7'',
              Print (Error_uploading ''new.pdf''), Print Trying_again],
     streams = [], content_stream = None, rep = None\<rparr>)"
  by code_simp

subsection \<open>C9: a rejected update\<close>

text \<open>
  Claim C9, at the input where the code departs from it. \<^verbatim>\<open>update_document\<close> is
  called for a.pdf with a stream that holds the bytes of the file; the sink's reply to
  the update has no \<^verbatim>\<open>document\<close> entry. The KeyError is caught; the entry is
  deleted and then a create is sent under the same name, as the claim says. But line
  185 hands on the stream that the update of line 178 has read to its end: the create
  carries an empty file, not the content of the update.
\<close>

theorem rejected_update_recreates_empty_file:
  "update_document (fixed_env 200 ''body'' (With_document ''doc'') Without_document 200)
     ''a.pdf'' ''s1'' 0 \<lparr>trace = [], streams = [''body''], content_stream = Some 0, rep = None\<rparr> =
   (Inr None,
    \<lparr>trace = [Update ''a.pdf'' ''s1'' ''body'', Print Deleting_and_performing_again,
              Delete ''s1'', Print (Deleted_successfully ''s1''), Upload ''a.pdf'' []],
     streams = [[]], content_stream = Some 0, rep = None\<rparr>)"
  by code_simp

subsection \<open>C10: the extension filter\<close>

text \<open>
  Claim C10. The list of extensions is fixed when the source object is built. Let
  every entry of a folder listing whose extension, with a dot put before it, is in that
  list have a name that normalises and a date that parses. Then \<^verbatim>\<open>list_files\<close>
  returns one document for each such entry and for no other, in order, with the
  entry's id, its normalised name, its time and the project's id; for every other entry
  it prints a line and returns nothing. The test is string equality, so PDF in capitals
  is not pdf.
\<close>

theorem list_files_filters_by_extension:
  assumes "\<forall>d\<in>set ds. ''.'' @ extension d \<in> set (WimiFileSource_extensions unstructured) \<longrightarrow>
             (\<exists>k. remove_multiple_extensions (entry_name d) = Inr k) \<and> (\<exists>t. ts (entry_date d) = Inr t)"
  shows "\<exists>docs.
     list_files ts (WimiFileSource_extensions unstructured) project_id ds tr =
       (Inr docs,
        tr @ map (\<lambda>d. Print (Not_supported_file (entry_name d)))
               (filter (\<lambda>d. ''.'' @ extension d \<notin> set (WimiFileSource_extensions unstructured)) ds)) \<and>
     map ident docs =
       map file_id (filter (\<lambda>d. ''.'' @ extension d \<in> set (WimiFileSource_extensions unstructured)) ds) \<and>
     map (\<lambda>x. Inr (name x)) docs =
       map (\<lambda>d. remove_multiple_extensions (entry_name d))
         (filter (\<lambda>d. ''.'' @ extension d \<in> set (WimiFileSource_extensions unstructured)) ds) \<and>
     map (\<lambda>x. Inr (date x)) docs =
       map (\<lambda>d. ts (entry_date d))
         (filter (\<lambda>d. ''.'' @ extension d \<in> set (WimiFileSource_extensions unstructured)) ds) \<and>
     map workspace_id docs =
       map (\<lambda>d. Some project_id)
         (filter (\<lambda>d. ''.'' @ extension d \<in> set (WimiFileSource_extensions unstructured)) ds)"
  using list_files_loop_ok [OF assms, of project_id "[]" tr]
  by (simp add: list_files_def)

theorem list_files_filters_by_extension_witness:
  "\<exists>docs. list_files (\<lambda>t. Inr 0) (WimiFileSource_extensions None) 5 example_listing [] =
      (Inr docs, [Print (Not_supported_file ''b.PDF''), Print (Not_supported_file ''c.exe'')]) \<and>
     map ident docs = [''1''] \<and> map (\<lambda>x. Inr (name x)) docs = [Inr ''a.pdf'' :: error + string]"
proof -
  have a: "\<forall>d\<in>set example_listing. ''.'' @ extension d \<in> set (WimiFileSource_extensions None) \<longrightarrow>
             (\<exists>k. remove_multiple_extensions (entry_name d) = Inr k) \<and>
             (\<exists>t. (\<lambda>t. Inr 0 :: error + real) (entry_date d) = Inr t)"
    by (simp add: example_listing_def remove_multiple_extensions_def)
  have b: "filter (\<lambda>d. ''.'' @ extension d \<notin> set (WimiFileSource_extensions None)) example_listing =
     [\<lparr>entry_name = ''b.PDF'', extension = ''PDF'', file_id = ''2'', entry_date = ''2024''\<rparr>,
      \<lparr>entry_name = ''c.exe'', extension = ''exe'', file_id = ''3'', entry_date = ''2024''\<rparr>]"
    by code_simp
  have c: "filter (\<lambda>d. ''.'' @ extension d \<in> set (WimiFileSource_extensions None)) example_listing =
     [\<lparr>entry_name = ''a.pdf'', extension = ''pdf'', file_id = ''1'', entry_date = ''2024''\<rparr>]"
    by code_simp
  have d: "remove_multiple_extensions ''a.pdf'' = Inr ''a.pdf''"
    by code_simp
  from list_files_filters_by_extension [OF a, of 5 "[]"]
  show ?thesis
    unfolding b c by (auto simp: d)
qed

end
